theory Spec2Isabelle
  imports Main "HOL-Library.Word" "HOL-Library.Sublist" "HOL-Library.Mapping"
    "HOL-Library.AList_Mapping"
begin

section \<open>Near-duplicate file clustering (main.py)\<close>

text \<open>
  The program walks a directory, computes for every file that is large enough a fuzzy
  digest (ssdeep) and a strong digest (xxh64), stores both in the dictionary
  \<open>file_hashes\<close>, and then clusters the paths greedily by pairwise comparison of the
  fuzzy digests. The library calls (\<open>ssdeep.hash\<close>, \<open>xxhash.xxh64\<close>,
  \<open>ssdeep.compare\<close>) and the file system are parameters of the model; each of them
  either returns a value or raises, which the model writes as a sum with the exception
  on the left. Calls of \<open>logging\<close> only write to the process log and never change a
  returned value or the control flow, so they are left out.
\<close>

subsection \<open>Exceptions and the file system\<close>

datatype exn =
    FileNotFoundError
  | PermissionError
  | OSError
  | SsdeepError
  | OtherException

type_synonym bytes = "8 word list"

text \<open>
  What the operating system answers for one file that \<open>os.walk\<close> lists: its joined
  path, the outcome of \<open>os.path.getsize\<close> and the outcome of opening and reading it.
\<close>

record file_entry =
  filepath :: string
  getsize :: "exn + nat"
  file_content :: "exn + bytes"

text \<open>
  A directory argument: whether \<open>os.path.isdir\<close> holds of it, and the files that
  \<open>os.walk\<close> yields below it, in traversal order.
\<close>

record directory =
  isdir :: bool
  walk :: "file_entry list"

subsection \<open>Dictionaries in insertion order\<close>

text \<open>
  A Python \<open>dict\<close> iterates in insertion order, and the clustering depends on that
  order, so \<open>file_hashes\<close> is an association list. \<open>d[k] = v\<close> overwrites the value
  of a key that is present, in place, and appends a new key at the end.
\<close>

fun dict_set :: "('k \<times> 'v) list \<Rightarrow> 'k \<Rightarrow> 'v \<Rightarrow> ('k \<times> 'v) list" where
  "dict_set [] k v = [(k, v)]"
| "dict_set ((k', v') # kvs) k v =
     (if k' = k then (k, v) # kvs else (k', v') # dict_set kvs k v)"

type_synonym ('d, 's) file_hashes = "(string \<times> ('d \<times> 's)) list"

text \<open>
  The dictionary \<open>clusters\<close> of the source only ever maps a path to \<open>True\<close>; it is the
  registry of paths that some cluster has claimed as a member.
\<close>

type_synonym registry = "(string, bool) mapping"

subsection \<open>calculate_hashes\<close>

text \<open>
  The three \<open>except\<close> clauses of \<open>calculate_hashes\<close> differ in the message they log and
  all return \<open>(None, None)\<close>.
\<close>

fun hash_failure :: "exn \<Rightarrow> string option \<times> string option" where
  "hash_failure FileNotFoundError = (None, None)"
| "hash_failure PermissionError = (None, None)"
| "hash_failure e = (None, None)"

definition calculate_hashes ::
  "(bytes \<Rightarrow> exn + string) \<Rightarrow> (bytes \<Rightarrow> exn + string) \<Rightarrow> file_entry
     \<Rightarrow> string option \<times> string option" where
  "calculate_hashes ssdeep_hash xxh64_hexdigest f =
     (case file_content f of
        Inl e \<Rightarrow> hash_failure e
      | Inr content \<Rightarrow>
          (case ssdeep_hash content of
             Inl e \<Rightarrow> hash_failure e
           | Inr ssdeep_hash' \<Rightarrow>
               (case xxh64_hexdigest content of
                  Inl e \<Rightarrow> hash_failure e
                | Inr xxhash_hash \<Rightarrow> (Some ssdeep_hash', Some xxhash_hash))))"

text \<open>Python truth value of an optional string: \<open>None\<close> and the empty string are false.\<close>

fun truthy :: "string option \<Rightarrow> bool" where
  "truthy None = False"
| "truthy (Some s) = (s \<noteq> [])"

subsection \<open>The scan of find_similar_files (lines 77 to 93)\<close>

text \<open>
  The loop over the walked files, with the dictionary built so far. An exception of
  \<open>os.path.getsize\<close> is not caught inside the loop: it leaves the loop and reaches the
  handlers around it, which is the \<open>Inl\<close> result here.
\<close>

fun scan_files ::
  "(bytes \<Rightarrow> exn + string) \<Rightarrow> (bytes \<Rightarrow> exn + string) \<Rightarrow> int \<Rightarrow> file_entry list
     \<Rightarrow> (string option, string option) file_hashes
     \<Rightarrow> exn + (string option, string option) file_hashes" where
  "scan_files ssdeep_hash xxh64_hexdigest min_size [] file_hashes = Inr file_hashes"
| "scan_files ssdeep_hash xxh64_hexdigest min_size (f # files) file_hashes =
     (case getsize f of
        Inl e \<Rightarrow> Inl e
      | Inr size' \<Rightarrow>
          if int size' < min_size
          then scan_files ssdeep_hash xxh64_hexdigest min_size files file_hashes
          else
            (case calculate_hashes ssdeep_hash xxh64_hexdigest f of
               (ssdeep_hash', xxhash_hash) \<Rightarrow>
                 if truthy ssdeep_hash' \<and> truthy xxhash_hash
                 then scan_files ssdeep_hash xxh64_hexdigest min_size files
                        (dict_set file_hashes (filepath f) (ssdeep_hash', xxhash_hash))
                 else scan_files ssdeep_hash xxh64_hexdigest min_size files file_hashes))"

subsection \<open>The clustering pass (lines 96 to 113)\<close>

text \<open>
  The inner loop over \<open>file_hashes.items()\<close> for one representative \<open>filepath1\<close>: it
  threads the registry \<open>clusters\<close> and the list \<open>cluster\<close>. An exception of
  \<open>ssdeep.compare\<close> is caught by one of the two handlers, which only log.
\<close>

fun inner_loop ::
  "('d \<Rightarrow> 'd \<Rightarrow> exn + int) \<Rightarrow> int \<Rightarrow> string \<Rightarrow> 'd \<Rightarrow> ('d, 's) file_hashes
     \<Rightarrow> registry \<Rightarrow> string list \<Rightarrow> string list \<times> registry" where
  "inner_loop compare threshold filepath1 ssdeep_hash1 [] clusters cluster =
     (cluster, clusters)"
| "inner_loop compare threshold filepath1 ssdeep_hash1
       ((filepath2, (ssdeep_hash2, xxhash2)) # items) clusters cluster =
     (if filepath1 \<noteq> filepath2 \<and> filepath2 \<notin> Mapping.keys clusters
      then
        (case compare ssdeep_hash1 ssdeep_hash2 of
           Inr similarity \<Rightarrow>
             if similarity \<ge> threshold
             then inner_loop compare threshold filepath1 ssdeep_hash1 items
                    (Mapping.update filepath2 True clusters) (cluster @ [filepath2])
             else inner_loop compare threshold filepath1 ssdeep_hash1 items clusters cluster
         | Inl e \<Rightarrow>
             inner_loop compare threshold filepath1 ssdeep_hash1 items clusters cluster)
      else inner_loop compare threshold filepath1 ssdeep_hash1 items clusters cluster)"

text \<open>
  The outer loop over \<open>file_hashes.items()\<close>. The first list argument is the whole
  dictionary (the inner loop iterates over all of it), the second the items that the
  outer loop has not reached yet. The result is the list of yielded pairs together
  with the registry at the end.
\<close>

fun outer_loop ::
  "('d \<Rightarrow> 'd \<Rightarrow> exn + int) \<Rightarrow> int \<Rightarrow> ('d, 's) file_hashes \<Rightarrow> ('d, 's) file_hashes
     \<Rightarrow> registry \<Rightarrow> (string \<times> string list) list \<times> registry" where
  "outer_loop compare threshold file_hashes [] clusters = ([], clusters)"
| "outer_loop compare threshold file_hashes ((filepath1, (ssdeep_hash1, xxhash1)) # items)
       clusters =
     (if filepath1 \<in> Mapping.keys clusters
      then outer_loop compare threshold file_hashes items clusters
      else
        (case inner_loop compare threshold filepath1 ssdeep_hash1 file_hashes clusters
                [filepath1] of
           (cluster, clusters') \<Rightarrow>
             if length cluster > 1
             then
               (case outer_loop compare threshold file_hashes items clusters' of
                  (yielded, clusters'') \<Rightarrow> ((filepath1, cluster) # yielded, clusters''))
             else outer_loop compare threshold file_hashes items clusters'))"

definition cluster_files ::
  "('d \<Rightarrow> 'd \<Rightarrow> exn + int) \<Rightarrow> int \<Rightarrow> ('d, 's) file_hashes \<Rightarrow> (string \<times> string list) list" where
  "cluster_files compare threshold file_hashes =
     fst (outer_loop compare threshold file_hashes file_hashes Mapping.empty)"

subsection \<open>find_similar_files\<close>

text \<open>
  The generator as the list of the pairs it yields. Each \<open>return {}\<close> of the source
  ends the generator without a pair.
\<close>

definition find_similar_files ::
  "(bytes \<Rightarrow> exn + string) \<Rightarrow> (bytes \<Rightarrow> exn + string)
     \<Rightarrow> (string option \<Rightarrow> string option \<Rightarrow> exn + int)
     \<Rightarrow> directory \<Rightarrow> int \<Rightarrow> int \<Rightarrow> (string \<times> string list) list" where
  "find_similar_files ssdeep_hash xxh64_hexdigest compare dir threshold min_size =
     (if \<not> isdir dir then []
      else
        (case scan_files ssdeep_hash xxh64_hexdigest min_size (walk dir) [] of
           Inl e \<Rightarrow> []
         | Inr file_hashes \<Rightarrow> cluster_files compare threshold file_hashes))"

subsection \<open>The clustering pass with the comparison as a relation\<close>

text \<open>
  \<open>ssdeep.compare\<close> is a call into a library. To say what it means that the pass is
  deterministic when the comparison is, the same two loops are written once more as
  relations over a comparison \<open>compare_rel a b r\<close> (``the call on \<open>a\<close> and \<open>b\<close> may
  have the outcome \<open>r\<close>''), one rule for every path through the loop body.
\<close>

inductive inner_run ::
  "('d \<Rightarrow> 'd \<Rightarrow> exn + int \<Rightarrow> bool) \<Rightarrow> int \<Rightarrow> string \<Rightarrow> 'd \<Rightarrow> ('d, 's) file_hashes
     \<Rightarrow> registry \<Rightarrow> string list \<Rightarrow> string list \<times> registry \<Rightarrow> bool"
  for compare_rel :: "'d \<Rightarrow> 'd \<Rightarrow> exn + int \<Rightarrow> bool" and threshold :: int
    and filepath1 :: string and ssdeep_hash1 :: 'd
where
  inner_done:
    "inner_run compare_rel threshold filepath1 ssdeep_hash1 [] clusters cluster
       (cluster, clusters)"
| inner_guard:
    "filepath1 = filepath2 \<or> filepath2 \<in> Mapping.keys clusters \<Longrightarrow>
     inner_run compare_rel threshold filepath1 ssdeep_hash1 items clusters cluster r \<Longrightarrow>
     inner_run compare_rel threshold filepath1 ssdeep_hash1
       ((filepath2, (ssdeep_hash2, xxhash2)) # items) clusters cluster r"
| inner_similar:
    "filepath1 \<noteq> filepath2 \<Longrightarrow> filepath2 \<notin> Mapping.keys clusters \<Longrightarrow>
     compare_rel ssdeep_hash1 ssdeep_hash2 (Inr similarity) \<Longrightarrow> similarity \<ge> threshold \<Longrightarrow>
     inner_run compare_rel threshold filepath1 ssdeep_hash1 items
       (Mapping.update filepath2 True clusters) (cluster @ [filepath2]) r \<Longrightarrow>
     inner_run compare_rel threshold filepath1 ssdeep_hash1
       ((filepath2, (ssdeep_hash2, xxhash2)) # items) clusters cluster r"
| inner_below:
    "filepath1 \<noteq> filepath2 \<Longrightarrow> filepath2 \<notin> Mapping.keys clusters \<Longrightarrow>
     compare_rel ssdeep_hash1 ssdeep_hash2 (Inr similarity) \<Longrightarrow> \<not> similarity \<ge> threshold \<Longrightarrow>
     inner_run compare_rel threshold filepath1 ssdeep_hash1 items clusters cluster r \<Longrightarrow>
     inner_run compare_rel threshold filepath1 ssdeep_hash1
       ((filepath2, (ssdeep_hash2, xxhash2)) # items) clusters cluster r"
| inner_raised:
    "filepath1 \<noteq> filepath2 \<Longrightarrow> filepath2 \<notin> Mapping.keys clusters \<Longrightarrow>
     compare_rel ssdeep_hash1 ssdeep_hash2 (Inl e) \<Longrightarrow>
     inner_run compare_rel threshold filepath1 ssdeep_hash1 items clusters cluster r \<Longrightarrow>
     inner_run compare_rel threshold filepath1 ssdeep_hash1
       ((filepath2, (ssdeep_hash2, xxhash2)) # items) clusters cluster r"

inductive outer_run ::
  "('d \<Rightarrow> 'd \<Rightarrow> exn + int \<Rightarrow> bool) \<Rightarrow> int \<Rightarrow> ('d, 's) file_hashes \<Rightarrow> ('d, 's) file_hashes
     \<Rightarrow> registry \<Rightarrow> (string \<times> string list) list \<times> registry \<Rightarrow> bool"
  for compare_rel :: "'d \<Rightarrow> 'd \<Rightarrow> exn + int \<Rightarrow> bool" and threshold :: int
    and file_hashes :: "('d, 's) file_hashes"
where
  outer_done:
    "outer_run compare_rel threshold file_hashes [] clusters ([], clusters)"
| outer_claimed:
    "filepath1 \<in> Mapping.keys clusters \<Longrightarrow>
     outer_run compare_rel threshold file_hashes items clusters r \<Longrightarrow>
     outer_run compare_rel threshold file_hashes
       ((filepath1, (ssdeep_hash1, xxhash1)) # items) clusters r"
| outer_yield:
    "filepath1 \<notin> Mapping.keys clusters \<Longrightarrow>
     inner_run compare_rel threshold filepath1 ssdeep_hash1 file_hashes clusters [filepath1]
       (cluster, clusters') \<Longrightarrow>
     length cluster > 1 \<Longrightarrow>
     outer_run compare_rel threshold file_hashes items clusters' (yielded, clusters'') \<Longrightarrow>
     outer_run compare_rel threshold file_hashes
       ((filepath1, (ssdeep_hash1, xxhash1)) # items) clusters
       ((filepath1, cluster) # yielded, clusters'')"
| outer_discard:
    "filepath1 \<notin> Mapping.keys clusters \<Longrightarrow>
     inner_run compare_rel threshold filepath1 ssdeep_hash1 file_hashes clusters [filepath1]
       (cluster, clusters') \<Longrightarrow>
     \<not> length cluster > 1 \<Longrightarrow>
     outer_run compare_rel threshold file_hashes items clusters' r \<Longrightarrow>
     outer_run compare_rel threshold file_hashes
       ((filepath1, (ssdeep_hash1, xxhash1)) # items) clusters r"

definition cluster_files_run ::
  "('d \<Rightarrow> 'd \<Rightarrow> exn + int \<Rightarrow> bool) \<Rightarrow> int \<Rightarrow> ('d, 's) file_hashes
     \<Rightarrow> (string \<times> string list) list \<Rightarrow> bool" where
  "cluster_files_run compare_rel threshold file_hashes yielded \<longleftrightarrow>
     (\<exists>clusters. outer_run compare_rel threshold file_hashes file_hashes Mapping.empty
        (yielded, clusters))"

text \<open>A comparison is deterministic when a call has at most one outcome.\<close>

definition deterministic :: "('d \<Rightarrow> 'd \<Rightarrow> exn + int \<Rightarrow> bool) \<Rightarrow> bool" where
  "deterministic compare_rel \<longleftrightarrow>
     (\<forall>a b r r'. compare_rel a b r \<longrightarrow> compare_rel a b r' \<longrightarrow> r = r')"

text \<open>The relation of a comparison that is a function.\<close>

definition outcome_of :: "('d \<Rightarrow> 'd \<Rightarrow> exn + int) \<Rightarrow> 'd \<Rightarrow> 'd \<Rightarrow> exn + int \<Rightarrow> bool" where
  "outcome_of compare a b r \<longleftrightarrow> r = compare a b"

subsection \<open>Notions used in the properties\<close>

text \<open>
  The test that the body of the inner loop applies to a pair of digests: the comparison
  returns, and its score reaches the threshold.
\<close>

definition meets :: "('d \<Rightarrow> 'd \<Rightarrow> exn + int) \<Rightarrow> int \<Rightarrow> 'd \<Rightarrow> 'd \<Rightarrow> bool" where
  "meets compare threshold a b =
     (case compare a b of Inr similarity \<Rightarrow> similarity \<ge> threshold | Inl e \<Rightarrow> False)"

text \<open>
  The paths that one run of the inner loop appends, and the registry after marking a
  list of paths; \<open>inner_loop_eq\<close> below shows that the inner loop computes exactly these.
\<close>

fun new_members ::
  "('d \<Rightarrow> 'd \<Rightarrow> exn + int) \<Rightarrow> int \<Rightarrow> string \<Rightarrow> 'd \<Rightarrow> ('d, 's) file_hashes
     \<Rightarrow> registry \<Rightarrow> string list" where
  "new_members compare threshold filepath1 ssdeep_hash1 [] clusters = []"
| "new_members compare threshold filepath1 ssdeep_hash1
       ((filepath2, (ssdeep_hash2, xxhash2)) # items) clusters =
     (if filepath1 \<noteq> filepath2 \<and> filepath2 \<notin> Mapping.keys clusters
         \<and> meets compare threshold ssdeep_hash1 ssdeep_hash2
      then filepath2 #
             new_members compare threshold filepath1 ssdeep_hash1 items
               (Mapping.update filepath2 True clusters)
      else new_members compare threshold filepath1 ssdeep_hash1 items clusters)"

fun mark :: "registry \<Rightarrow> string list \<Rightarrow> registry" where
  "mark clusters [] = clusters"
| "mark clusters (p # ps) = mark (Mapping.update p True clusters) ps"

text \<open>
  The invariant of the outer loop behind the disjointness of the clusters: no path of
  \<open>D\<close> (the representatives tried so far) meets the threshold against a path that is
  still outside the registry.
\<close>

definition unmatched ::
  "('d \<Rightarrow> 'd \<Rightarrow> exn + int) \<Rightarrow> int \<Rightarrow> ('d, 's) file_hashes \<Rightarrow> string set \<Rightarrow> registry
     \<Rightarrow> bool" where
  "unmatched compare threshold tbl D clusters \<longleftrightarrow>
     (\<forall>p hp xp q hq xq. p \<in> D \<longrightarrow> (p, (hp, xp)) \<in> set tbl \<longrightarrow> (q, (hq, xq)) \<in> set tbl \<longrightarrow>
        q \<notin> Mapping.keys clusters \<longrightarrow> q \<noteq> p \<longrightarrow> \<not> meets compare threshold hp hq)"

text \<open>
  The shape that the specification gives to a yielded pair, read on the second component
  as the generator yields it: a non-empty sequence of members in which the
  representative does not occur.
\<close>

definition members_exclude_representative :: "(string \<times> string list) list \<Rightarrow> bool" where
  "members_exclude_representative yielded =
     list_all (\<lambda>(rep, members). members \<noteq> [] \<and> rep \<notin> set members) yielded"

text \<open>Two paths are placed in the same cluster when one yielded list holds both.\<close>

definition same_cluster :: "(string \<times> string list) list \<Rightarrow> string \<Rightarrow> string \<Rightarrow> bool" where
  "same_cluster yielded p q = list_ex (\<lambda>(rep, cluster). p \<in> set cluster \<and> q \<in> set cluster) yielded"


text \<open>A walked file is too small when its size check returns a size below \<open>min_size\<close>.\<close>

definition too_small :: "int \<Rightarrow> file_entry \<Rightarrow> bool" where
  "too_small min_size f = (case getsize f of Inl e \<Rightarrow> False | Inr size' \<Rightarrow> int size' < min_size)"

text \<open>Reading or hashing a file failed when \<open>calculate_hashes\<close> took one of its handlers.\<close>

definition hashing_failed ::
  "(bytes \<Rightarrow> exn + string) \<Rightarrow> (bytes \<Rightarrow> exn + string) \<Rightarrow> file_entry \<Rightarrow> bool" where
  "hashing_failed ssdeep_hash xxh64_hexdigest f =
     (case file_content f of
        Inl e \<Rightarrow> True
      | Inr content \<Rightarrow>
          (case ssdeep_hash content of
             Inl e \<Rightarrow> True
           | Inr h \<Rightarrow> (case xxh64_hexdigest content of Inl e \<Rightarrow> True | Inr x \<Rightarrow> False)))"

subsection \<open>Example inputs\<close>

text \<open>
  A comparison that scores equal digests 100 and all others 0, and a table of three
  files of which the first two have the same digest.
\<close>

definition example_compare :: "string \<Rightarrow> string \<Rightarrow> exn + int" where
  "example_compare a b = (if a = b then Inr 100 else Inr 0)"

definition example_hashes :: "(string, string) file_hashes" where
  "example_hashes =
     [(''a.txt'', (''3:abc'', ''01'')), (''b.txt'', (''3:abc'', ''01'')),
      (''c.txt'', (''3:xyz'', ''02''))]"

text \<open>
  Three files of which \<open>A\<close> and \<open>B\<close> score 50, \<open>B\<close> and \<open>C\<close> score 90, and
  \<open>A\<close> and \<open>C\<close> score 10; the comparison is symmetric.
\<close>

fun pair_score :: "string \<Rightarrow> string \<Rightarrow> int" where
  "pair_score a b =
     (if a = b then 100
      else if (a, b) = (''3:a'', ''3:b'') then 50
      else if (a, b) = (''3:b'', ''3:c'') then 90
      else 10)"

definition example_scores :: "string \<Rightarrow> string \<Rightarrow> exn + int" where
  "example_scores a b = Inr (max (pair_score a b) (pair_score b a))"

definition example_table :: "(string, string) file_hashes" where
  "example_table =
     [(''A'', (''3:a'', ''0a'')), (''B'', (''3:b'', ''0b'')), (''C'', (''3:c'', ''0c''))]"


definition example_one_way :: "string \<Rightarrow> string \<Rightarrow> exn + int" where
  "example_one_way a b = (if a = ''3:b'' \<and> b = ''3:a'' then Inr 90 else Inr 0)"

definition example_pair :: "(string, string) file_hashes" where
  "example_pair = [(''A'', (''3:a'', ''0a'')), (''B'', (''3:b'', ''0b''))]"

text \<open>The size check of every walked file returns.\<close>

definition size_checks_succeed :: "file_entry list \<Rightarrow> bool" where
  "size_checks_succeed files =
     list_all (\<lambda>f. case getsize f of Inl e \<Rightarrow> False | Inr size' \<Rightarrow> True) files"

text \<open>
  A digest provider that fails on empty content and whose fuzzy digest depends on the
  first byte, a comparison on the optional digests of the table (it raises on \<open>None\<close>),
  and five walked files: two similar ones, one whose size check fails, one that cannot
  be read and one that is too small.
\<close>

definition example_ssdeep :: "bytes \<Rightarrow> exn + string" where
  "example_ssdeep content =
     (case content of
        [] \<Rightarrow> Inl OtherException
      | b # bs \<Rightarrow> Inr (if b = 1 then ''3:abc'' else ''3:xyz''))"

definition example_xxh64 :: "bytes \<Rightarrow> exn + string" where
  "example_xxh64 content = Inr ''ef46db3751d8e999''"

definition example_compare_opt :: "string option \<Rightarrow> string option \<Rightarrow> exn + int" where
  "example_compare_opt a b =
     (case (a, b) of
        (Some x, Some y) \<Rightarrow> example_compare x y
      | _ \<Rightarrow> Inl OtherException)"

definition file_a :: file_entry where
  "file_a = \<lparr>filepath = ''d/a.txt'', getsize = Inr 2000, file_content = Inr [1, 2, 3]\<rparr>"

definition file_b :: file_entry where
  "file_b = \<lparr>filepath = ''d/b.txt'', getsize = Inr 2000, file_content = Inr [1, 2, 4]\<rparr>"

definition file_gone :: file_entry where
  "file_gone = \<lparr>filepath = ''d/gone.txt'', getsize = Inl FileNotFoundError,
                 file_content = Inl FileNotFoundError\<rparr>"

definition file_secret :: file_entry where
  "file_secret = \<lparr>filepath = ''d/secret.txt'', getsize = Inr 5000,
                   file_content = Inl PermissionError\<rparr>"

definition file_tiny :: file_entry where
  "file_tiny = \<lparr>filepath = ''d/tiny.txt'', getsize = Inr 10, file_content = Inr [1]\<rparr>"

definition example_dir :: directory where
  "example_dir = \<lparr>isdir = True, walk = [file_secret, file_tiny, file_a, file_b]\<rparr>"

section \<open>Properties\<close>

subsection \<open>The inner loop\<close>

lemma keys_mark: "Mapping.keys (mark clusters ps) = Mapping.keys clusters \<union> set ps"
  by (induction ps arbitrary: clusters) auto

lemma inner_loop_step:
  "inner_loop compare threshold p1 h1 ((p2, (h2, x2)) # items) clusters cluster =
     (if p1 \<noteq> p2 \<and> p2 \<notin> Mapping.keys clusters \<and> meets compare threshold h1 h2
      then inner_loop compare threshold p1 h1 items (Mapping.update p2 True clusters) (cluster @ [p2])
      else inner_loop compare threshold p1 h1 items clusters cluster)"
  by (simp add: meets_def split: sum.splits)

lemma inner_loop_eq:
  "inner_loop compare threshold p1 h1 items clusters cluster =
     (cluster @ new_members compare threshold p1 h1 items clusters,
      mark clusters (new_members compare threshold p1 h1 items clusters))"
proof (induction items arbitrary: clusters cluster)
  case Nil
  show ?case by simp
next
  case (Cons item items)
  obtain p2 h2 x2 where item: "item = (p2, (h2, x2))" by (cases item) auto
  show ?case unfolding item inner_loop_step by (simp add: Cons.IH)
qed

lemma new_members_not_rep: "p1 \<notin> set (new_members compare threshold p1 h1 items clusters)"
  by (induction compare threshold p1 h1 items clusters rule: new_members.induct)
     (auto split: if_splits)

lemma new_members_fresh:
  "m \<in> set (new_members compare threshold p1 h1 items clusters) \<Longrightarrow> m \<notin> Mapping.keys clusters"
  by (induction compare threshold p1 h1 items clusters rule: new_members.induct)
     (auto split: if_splits)

lemma new_members_distinct: "distinct (new_members compare threshold p1 h1 items clusters)"
  by (induction compare threshold p1 h1 items clusters rule: new_members.induct)
     (auto dest: new_members_fresh)

lemma new_members_subseq:
  "subseq (new_members compare threshold p1 h1 items clusters) (map fst items)"
  by (induction compare threshold p1 h1 items clusters rule: new_members.induct) auto

lemma new_members_meets:
  "m \<in> set (new_members compare threshold p1 h1 items clusters) \<Longrightarrow>
     \<exists>h x. (m, (h, x)) \<in> set items \<and> meets compare threshold h1 h"
  by (induction compare threshold p1 h1 items clusters rule: new_members.induct)
     (auto split: if_splits)

lemma new_members_complete:
  "(q, (h, x)) \<in> set items \<Longrightarrow> q \<noteq> p1 \<Longrightarrow> q \<notin> Mapping.keys clusters \<Longrightarrow>
     q \<notin> set (new_members compare threshold p1 h1 items clusters) \<Longrightarrow>
     \<not> meets compare threshold h1 h"
  by (induction compare threshold p1 h1 items clusters rule: new_members.induct)
     (auto split: if_splits)


subsection \<open>The outer loop\<close>

lemma outer_loop_step:
  "outer_loop compare threshold tbl ((p1, (h1, x1)) # items) clusters =
     (if p1 \<in> Mapping.keys clusters then outer_loop compare threshold tbl items clusters
      else if new_members compare threshold p1 h1 tbl clusters = []
      then outer_loop compare threshold tbl items clusters
      else
        ((p1, p1 # new_members compare threshold p1 h1 tbl clusters) #
           fst (outer_loop compare threshold tbl items
                  (mark clusters (new_members compare threshold p1 h1 tbl clusters))),
         snd (outer_loop compare threshold tbl items
                  (mark clusters (new_members compare threshold p1 h1 tbl clusters)))))"
  by (simp add: inner_loop_eq split: prod.splits)

lemma outer_loop_yielded:
  "(rep, cl) \<in> set (fst (outer_loop compare threshold tbl items clusters)) \<Longrightarrow>
     \<exists>h x reg. (rep, (h, x)) \<in> set items \<and> rep \<notin> Mapping.keys reg
        \<and> cl = rep # new_members compare threshold rep h tbl reg
        \<and> new_members compare threshold rep h tbl reg \<noteq> []"
proof (induction items arbitrary: clusters)
  case Nil
  then show ?case by simp
next
  case (Cons item items)
  obtain p1 h1 x1 where item: "item = (p1, (h1, x1))" by (cases item) auto
  let ?ms = "new_members compare threshold p1 h1 tbl clusters"
  consider (skip) "p1 \<in> Mapping.keys clusters \<or> ?ms = []"
    | (emit) "p1 \<notin> Mapping.keys clusters" "?ms \<noteq> []" by blast
  then show ?case
  proof cases
    case skip
    then have "outer_loop compare threshold tbl (item # items) clusters =
                 outer_loop compare threshold tbl items clusters"
      unfolding item outer_loop_step by auto
    with Cons.prems have "(rep, cl) \<in> set (fst (outer_loop compare threshold tbl items clusters))"
      by simp
    from Cons.IH [OF this] show ?thesis by auto
  next
    case emit
    then have "fst (outer_loop compare threshold tbl (item # items) clusters) =
                 (p1, p1 # ?ms) # fst (outer_loop compare threshold tbl items (mark clusters ?ms))"
      unfolding item outer_loop_step by simp
    with Cons.prems have "(rep, cl) = (p1, p1 # ?ms) \<or>
        (rep, cl) \<in> set (fst (outer_loop compare threshold tbl items (mark clusters ?ms)))"
      by simp
    then show ?thesis
    proof
      assume "(rep, cl) = (p1, p1 # ?ms)"
      with emit item show ?thesis by auto
    next
      assume "(rep, cl) \<in> set (fst (outer_loop compare threshold tbl items (mark clusters ?ms)))"
      from Cons.IH [OF this] show ?thesis by auto
    qed
  qed
qed

lemma outer_loop_reps_subseq:
  "subseq (map fst (fst (outer_loop compare threshold tbl items clusters))) (map fst items)"
proof (induction items arbitrary: clusters)
  case Nil
  show ?case by simp
next
  case (Cons item items)
  obtain p1 h1 x1 where item: "item = (p1, (h1, x1))" by (cases item) auto
  show ?case unfolding item outer_loop_step using Cons.IH by auto
qed


lemma outer_loop_keys_mono:
  "Mapping.keys clusters \<subseteq> Mapping.keys (snd (outer_loop compare threshold tbl items clusters))"
proof (induction items arbitrary: clusters)
  case Nil
  show ?case by simp
next
  case (Cons item items)
  obtain p1 h1 x1 where item: "item = (p1, (h1, x1))" by (cases item) auto
  have "Mapping.keys clusters \<subseteq>
          Mapping.keys (mark clusters (new_members compare threshold p1 h1 tbl clusters))"
    by (simp add: keys_mark)
  then show ?case
    unfolding item outer_loop_step
    using Cons.IH [of clusters]
      Cons.IH [of "mark clusters (new_members compare threshold p1 h1 tbl clusters)"]
    by auto
qed

lemma outer_loop_disjoint:
  assumes sym: "\<And>a b. meets compare threshold a b = meets compare threshold b a"
    and dist: "distinct (map fst tbl)"
  shows "set items \<subseteq> set tbl \<Longrightarrow> distinct (map fst items) \<Longrightarrow>
     D \<inter> fst ` set items = {} \<Longrightarrow> D \<inter> Mapping.keys clusters = {} \<Longrightarrow>
     unmatched compare threshold tbl D clusters \<Longrightarrow>
     distinct (concat (map snd (fst (outer_loop compare threshold tbl items clusters))))
     \<and> set (concat (map snd (fst (outer_loop compare threshold tbl items clusters))))
         \<subseteq> (fst ` set items - Mapping.keys (snd (outer_loop compare threshold tbl items clusters)))
           \<union> (Mapping.keys (snd (outer_loop compare threshold tbl items clusters))
                - Mapping.keys clusters)
     \<and> D \<inter> Mapping.keys (snd (outer_loop compare threshold tbl items clusters)) = {}"
proof (induction items arbitrary: clusters D)
  case Nil
  then show ?case by simp
next
  case (Cons item items)
  obtain p1 h1 x1 where item: "item = (p1, (h1, x1))" by (cases item) auto
  let ?ms = "new_members compare threshold p1 h1 tbl clusters"
  let ?c1 = "mark clusters ?ms"
  have sub: "set items \<subseteq> set tbl" and dist_items: "distinct (map fst items)"
    and p1_new: "p1 \<notin> fst ` set items" and p1_tbl: "(p1, (h1, x1)) \<in> set tbl"
    and D_items: "D \<inter> fst ` set items = {}" and p1_D: "p1 \<notin> D"
    using Cons.prems item by auto
  consider (skip) "p1 \<in> Mapping.keys clusters \<or> ?ms = []"
    | (emit) "p1 \<notin> Mapping.keys clusters" "?ms \<noteq> []" by blast
  then show ?case
  proof cases
    case skip
    then have eq: "outer_loop compare threshold tbl (item # items) clusters =
                 outer_loop compare threshold tbl items clusters"
      unfolding item outer_loop_step by auto
    from Cons.IH [OF sub dist_items D_items Cons.prems(4) Cons.prems(5)]
    show ?thesis unfolding eq by auto
  next
    case emit
    let ?r = "outer_loop compare threshold tbl items ?c1"
    have eq1: "fst (outer_loop compare threshold tbl (item # items) clusters) =
                 (p1, p1 # ?ms) # fst ?r"
      and eq2: "snd (outer_loop compare threshold tbl (item # items) clusters) = snd ?r"
      using emit unfolding item outer_loop_step by simp_all
    have keys_c1: "Mapping.keys ?c1 = Mapping.keys clusters \<union> set ?ms"
      by (rule keys_mark)
    let ?D = "insert p1 D"
    have D1: "?D \<inter> fst ` set items = {}" using D_items p1_new by auto
    have D_ms: "D \<inter> set ?ms = {}"
    proof (rule ccontr)
      assume "D \<inter> set ?ms \<noteq> {}"
      then obtain p where pD: "p \<in> D" and pms: "p \<in> set ?ms" by auto
      from new_members_meets [OF pms] obtain h x
        where ptbl: "(p, (h, x)) \<in> set tbl" and m: "meets compare threshold h1 h" by auto
      have "p1 \<noteq> p" using pD p1_D by auto
      with Cons.prems(5) pD ptbl p1_tbl emit(1) have "\<not> meets compare threshold h h1"
        unfolding unmatched_def by blast
      with m sym show False by simp
    qed
    have D2: "?D \<inter> Mapping.keys ?c1 = {}"
      using Cons.prems(4) emit(1) D_ms new_members_not_rep [of p1 compare threshold h1 tbl clusters]
      unfolding keys_c1 by auto
    have D3: "unmatched compare threshold tbl ?D ?c1"
      unfolding unmatched_def
    proof (intro allI impI)
      fix p hp xp q hq xq
      assume p: "p \<in> ?D" and ptbl: "(p, (hp, xp)) \<in> set tbl" and qtbl: "(q, (hq, xq)) \<in> set tbl"
        and qk: "q \<notin> Mapping.keys ?c1" and qp: "q \<noteq> p"
      have qk0: "q \<notin> Mapping.keys clusters" and qms: "q \<notin> set ?ms"
        using qk unfolding keys_c1 by auto
      show "\<not> meets compare threshold hp hq"
      proof (cases "p = p1")
        case True
        with ptbl p1_tbl dist have "hp = h1"
          by (metis eq_key_imp_eq_value prod.inject)
        with new_members_complete [OF qtbl _ qk0 qms] qp True show ?thesis by simp
      next
        case False
        with p have "p \<in> D" by simp
        with Cons.prems(5) ptbl qtbl qk0 qp show ?thesis unfolding unmatched_def by blast
      qed
    qed
    from Cons.IH [OF sub dist_items D1 D2 D3]
    have ih1: "distinct (concat (map snd (fst ?r)))"
      and ih2: "set (concat (map snd (fst ?r)))
         \<subseteq> (fst ` set items - Mapping.keys (snd ?r)) \<union> (Mapping.keys (snd ?r) - Mapping.keys ?c1)"
      and ih3: "?D \<inter> Mapping.keys (snd ?r) = {}"
      by auto
    have mono: "Mapping.keys ?c1 \<subseteq> Mapping.keys (snd ?r)" by (rule outer_loop_keys_mono)
    have disj: "set (p1 # ?ms) \<inter> set (concat (map snd (fst ?r))) = {}"
      using ih2 ih3 p1_new mono unfolding keys_c1 by auto
    have d0: "distinct (p1 # ?ms)"
      using new_members_distinct [of compare threshold p1 h1 tbl clusters]
        new_members_not_rep [of p1 compare threshold h1 tbl clusters] by simp
    have c1: "distinct (concat (map snd ((p1, p1 # ?ms) # fst ?r)))"
      using d0 ih1 disj by simp
    have ms_fresh: "set ?ms \<inter> Mapping.keys clusters = {}"
      using new_members_fresh [of _ compare threshold p1 h1 tbl clusters] by auto
    have c2: "set (concat (map snd ((p1, p1 # ?ms) # fst ?r)))
       \<subseteq> (fst ` set (item # items) - Mapping.keys (snd ?r)) \<union> (Mapping.keys (snd ?r) - Mapping.keys clusters)"
      using ih2 ih3 mono ms_fresh unfolding keys_c1 item by auto
    have c3: "D \<inter> Mapping.keys (snd ?r) = {}" using ih3 by auto
    show ?thesis unfolding eq1 eq2 using c1 c2 c3 by blast
  qed
qed

lemmas example_simps = cluster_files_def example_compare_def example_hashes_def

subsection \<open>Every path in at most one cluster\<close>

text \<open>
  Claim C1. If the keys of the digest table are distinct (it is a dictionary) and the
  comparison is symmetric, then the yielded lists, each of which starts with its
  representative and continues with its members, have no path in common and no path
  twice: every path appears at most once over all clusters, as representative or as
  member.
\<close>

theorem clusters_disjoint:
  assumes "distinct (map fst file_hashes)"
    and "\<forall>a b. compare a b = compare b a"
  shows "distinct (concat (map snd (cluster_files compare threshold file_hashes)))"
proof -
  have sym: "\<And>a b. meets compare threshold a b = meets compare threshold b a"
    using assms(2) by (simp add: meets_def)
  have "unmatched compare threshold file_hashes {} Mapping.empty"
    by (simp add: unmatched_def)
  with outer_loop_disjoint [OF sym assms(1), of file_hashes "{}" Mapping.empty] assms(1)
  show ?thesis by (simp add: cluster_files_def)
qed

theorem clusters_disjoint_witness:
  "distinct (map fst example_hashes) \<and> (\<forall>a b. example_compare a b = example_compare b a)
     \<and> cluster_files example_compare 70 example_hashes = [(''a.txt'', [''a.txt'', ''b.txt''])]
     \<and> distinct (concat (map snd (cluster_files example_compare 70 example_hashes)))"
proof -
  have d: "distinct (map fst example_hashes)" by (simp add: example_hashes_def)
  have s: "\<forall>a b. example_compare a b = example_compare b a" by (auto simp: example_compare_def)
  have e: "cluster_files example_compare 70 example_hashes = [(''a.txt'', [''a.txt'', ''b.txt''])]"
    by (simp add: example_simps)
  show ?thesis using d s e clusters_disjoint [OF d s, of 70] by blast
qed

subsection \<open>The shape of a yielded pair\<close>

text \<open>
  Claim C2, as stated, fails. The list that the generator yields beside the
  representative starts as \<open>[filepath1]\<close> and is yielded whole, so the representative
  occurs in it: for the three files of \<open>example_hashes\<close> the pass yields \<open>a.txt\<close> with
  the list \<open>[a.txt, b.txt]\<close>.
\<close>

theorem members_contain_representative_counterexample:
  "cluster_files example_compare 70 example_hashes = [(''a.txt'', [''a.txt'', ''b.txt''])]
   \<and> ''a.txt'' \<in> set [''a.txt'', ''b.txt'']
   \<and> \<not> members_exclude_representative (cluster_files example_compare 70 example_hashes)"
  by (simp add: example_simps members_exclude_representative_def)

text \<open>
  Claim C2, amended. The list of a yielded pair is the representative followed by the
  members that the inner loop appended. For every yielded pair the members (the tail of
  the list) are not empty, and the representative is not among them.
\<close>

theorem yielded_pair_shape:
  assumes "(rep, cluster) \<in> set (cluster_files compare threshold file_hashes)"
  shows "cluster = rep # tl cluster \<and> tl cluster \<noteq> [] \<and> rep \<notin> set (tl cluster)"
proof -
  from assms
    outer_loop_yielded [of rep cluster compare threshold file_hashes file_hashes Mapping.empty]
  obtain h x reg where "(rep, (h, x)) \<in> set file_hashes"
    and "cluster = rep # new_members compare threshold rep h file_hashes reg"
    and "new_members compare threshold rep h file_hashes reg \<noteq> []"
    unfolding cluster_files_def by blast
  then show ?thesis
    using new_members_not_rep [of rep compare threshold h file_hashes reg] by simp
qed

theorem yielded_pair_shape_witness:
  "(''a.txt'', [''a.txt'', ''b.txt'']) \<in> set (cluster_files example_compare 70 example_hashes)
     \<and> [''a.txt'', ''b.txt''] = ''a.txt'' # tl [''a.txt'', ''b.txt'']
     \<and> tl [''a.txt'', ''b.txt''] \<noteq> [] \<and> ''a.txt'' \<notin> set (tl [''a.txt'', ''b.txt''])"
proof -
  have m: "(''a.txt'', [''a.txt'', ''b.txt'']) \<in> set (cluster_files example_compare 70 example_hashes)"
    by (simp add: example_simps)
  show ?thesis using m yielded_pair_shape [OF m] by blast
qed

subsection \<open>Insertion order\<close>

text \<open>
  Claim C10. The representatives of the yielded pairs follow the insertion order of the
  digest table (they are a subsequence of its keys); in every yielded pair the list
  starts with the representative, and the elements after it follow the insertion order
  of the table as well.
\<close>

theorem yielded_in_insertion_order:
  "subseq (map fst (cluster_files compare threshold file_hashes)) (map fst file_hashes)
   \<and> (\<forall>(rep, cluster) \<in> set (cluster_files compare threshold file_hashes).
         cluster = rep # tl cluster \<and> subseq (tl cluster) (map fst file_hashes))"
proof
  show "subseq (map fst (cluster_files compare threshold file_hashes)) (map fst file_hashes)"
    unfolding cluster_files_def by (rule outer_loop_reps_subseq)
  show "\<forall>(rep, cluster) \<in> set (cluster_files compare threshold file_hashes).
         cluster = rep # tl cluster \<and> subseq (tl cluster) (map fst file_hashes)"
  proof (clarify)
    fix rep cluster
    assume "(rep, cluster) \<in> set (cluster_files compare threshold file_hashes)"
    with outer_loop_yielded [of rep cluster compare threshold file_hashes file_hashes Mapping.empty]
    obtain h x reg where "(rep, (h, x)) \<in> set file_hashes"
      and "cluster = rep # new_members compare threshold rep h file_hashes reg"
      unfolding cluster_files_def by blast
    then show "cluster = rep # tl cluster \<and> subseq (tl cluster) (map fst file_hashes)"
      using new_members_subseq [of compare threshold rep h file_hashes reg] by simp
  qed
qed

theorem yielded_in_insertion_order_witness:
  "(''a.txt'', [''a.txt'', ''b.txt'']) \<in> set (cluster_files example_compare 70 example_hashes)
   \<and> subseq (map fst (cluster_files example_compare 70 example_hashes)) (map fst example_hashes)
   \<and> [''a.txt'', ''b.txt''] = ''a.txt'' # tl [''a.txt'', ''b.txt'']
   \<and> subseq (tl [''a.txt'', ''b.txt'']) (map fst example_hashes)"
proof -
  have m: "(''a.txt'', [''a.txt'', ''b.txt'']) \<in> set (cluster_files example_compare 70 example_hashes)"
    by (simp add: example_simps)
  show ?thesis
    using m yielded_in_insertion_order [of example_compare 70 example_hashes] by blast
qed

subsection \<open>Thresholds\<close>

lemma meets_mono: "t1 \<le> t2 \<Longrightarrow> meets compare t2 a b \<Longrightarrow> meets compare t1 a b"
  by (auto simp: meets_def split: sum.splits)

lemma new_members_mono:
  assumes "t1 \<le> t2"
  shows "Mapping.keys c2 \<subseteq> Mapping.keys c1 \<Longrightarrow> Mapping.keys c1 - Mapping.keys c2 \<subseteq> A \<Longrightarrow>
           set (new_members compare t2 p h items c2) \<subseteq> A \<union> set (new_members compare t1 p h items c1)"
proof (induction items arbitrary: c1 c2 A)
  case Nil
  show ?case by simp
next
  case (Cons item items)
  obtain q hq xq where item: "item = (q, (hq, xq))" by (cases item) auto
  let ?N2 = "\<lambda>c. new_members compare t2 p h items c"
  let ?N1 = "\<lambda>c. new_members compare t1 p h items c"
  let ?add2 = "p \<noteq> q \<and> q \<notin> Mapping.keys c2 \<and> meets compare t2 h hq"
  let ?add1 = "p \<noteq> q \<and> q \<notin> Mapping.keys c1 \<and> meets compare t1 h hq"
  have sub: "Mapping.keys c2 \<subseteq> Mapping.keys c1" and diff: "Mapping.keys c1 - Mapping.keys c2 \<subseteq> A"
    using Cons.prems by blast+
  have e2: "new_members compare t2 p h (item # items) c2 =
              (if ?add2 then q # ?N2 (Mapping.update q True c2) else ?N2 c2)"
    unfolding item by simp
  have e1: "new_members compare t1 p h (item # items) c1 =
              (if ?add1 then q # ?N1 (Mapping.update q True c1) else ?N1 c1)"
    unfolding item by simp
  show ?case
  proof (cases ?add2)
    case add2: True
    then have "meets compare t2 h hq" by simp
    then have m1: "meets compare t1 h hq" by (rule meets_mono [OF assms])
    show ?thesis
    proof (cases "q \<in> Mapping.keys c1")
      case True
      then have qA: "q \<in> A" using add2 diff by blast
      have "set (?N2 (Mapping.update q True c2)) \<subseteq> A \<union> set (?N1 c1)"
      proof (rule Cons.IH)
        show "Mapping.keys (Mapping.update q True c2) \<subseteq> Mapping.keys c1"
          using sub True by simp
        show "Mapping.keys c1 - Mapping.keys (Mapping.update q True c2) \<subseteq> A"
          using diff by auto
      qed
      then show ?thesis unfolding e1 e2 using add2 True qA by simp
    next
      case False
      have "set (?N2 (Mapping.update q True c2)) \<subseteq> A \<union> set (?N1 (Mapping.update q True c1))"
      proof (rule Cons.IH)
        show "Mapping.keys (Mapping.update q True c2) \<subseteq> Mapping.keys (Mapping.update q True c1)"
          using sub by auto
        show "Mapping.keys (Mapping.update q True c1) - Mapping.keys (Mapping.update q True c2) \<subseteq> A"
          using diff by auto
      qed
      then show ?thesis unfolding e1 e2 using add2 False m1 by auto
    qed
  next
    case no2: False
    show ?thesis
    proof (cases ?add1)
      case True
      have "set (?N2 c2) \<subseteq> insert q A \<union> set (?N1 (Mapping.update q True c1))"
      proof (rule Cons.IH)
        show "Mapping.keys c2 \<subseteq> Mapping.keys (Mapping.update q True c1)"
          using sub by auto
        show "Mapping.keys (Mapping.update q True c1) - Mapping.keys c2 \<subseteq> insert q A"
          using diff by auto
      qed
      then show ?thesis unfolding e1 e2 using no2 True by auto
    next
      case False
      have "set (?N2 c2) \<subseteq> A \<union> set (?N1 c1)"
        using sub diff by (rule Cons.IH)
      then show ?thesis unfolding e1 e2 using no2 False by auto
    qed
  qed
qed

lemma outer_loop_reps:
  "fst ` set (fst (outer_loop compare threshold tbl items clusters)) \<subseteq> fst ` set items"
proof (induction items arbitrary: clusters)
  case Nil
  show ?case by simp
next
  case (Cons item items)
  obtain p1 h1 x1 where item: "item = (p1, (h1, x1))" by (cases item) auto
  show ?case
    unfolding item outer_loop_step
    using Cons.IH [of clusters]
      Cons.IH [of "mark clusters (new_members compare threshold p1 h1 tbl clusters)"]
    by auto
qed

lemma example_table_80:
  "cluster_files example_scores 80 example_table = [(''B'', [''B'', ''C''])]"
  by (simp add: cluster_files_def example_scores_def example_table_def)

lemma example_table_40:
  "cluster_files example_scores 40 example_table = [(''A'', [''A'', ''B''])]"
  by (simp add: cluster_files_def example_scores_def example_table_def)

text \<open>
  Claim C4, as stated, fails. With the three files of \<open>example_table\<close>, the pass at
  threshold 80 discards the candidate cluster of \<open>A\<close> and yields \<open>B\<close> with \<open>C\<close>; at
  threshold 40 the cluster of \<open>A\<close> claims \<open>B\<close> first, and \<open>C\<close> stays alone.
\<close>

theorem threshold_monotone_counterexample:
  "(40::int) \<le> 80
   \<and> same_cluster (cluster_files example_scores 80 example_table) ''B'' ''C''
   \<and> \<not> same_cluster (cluster_files example_scores 40 example_table) ''B'' ''C''"
  by (simp add: example_table_80 example_table_40 same_cluster_def)

lemma cluster_files_Cons:
  "cluster_files compare t ((p, (h, x)) # rest) =
     (if new_members compare t p h ((p, (h, x)) # rest) Mapping.empty = []
      then fst (outer_loop compare t ((p, (h, x)) # rest) rest Mapping.empty)
      else (p, p # new_members compare t p h ((p, (h, x)) # rest) Mapping.empty) #
           fst (outer_loop compare t ((p, (h, x)) # rest) rest
                  (mark Mapping.empty (new_members compare t p h ((p, (h, x)) # rest) Mapping.empty))))"
  unfolding cluster_files_def outer_loop_step by simp

text \<open>
  Claim C4, amended. A pair of digests that meets the higher threshold meets the lower
  one (\<open>meets_mono\<close>), and the first entry of the table, whose candidate cluster starts
  from the empty registry at every threshold, keeps its members: any two paths that are
  in its yielded cluster at \<open>t2\<close> are placed in the same cluster at \<open>t1 \<le> t2\<close>.
\<close>

theorem first_cluster_monotone:
  assumes "t1 \<le> t2"
    and "file_hashes = (p, (h, x)) # rest"
    and "distinct (map fst file_hashes)"
    and "(p, cluster2) \<in> set (cluster_files compare t2 file_hashes)"
  shows "\<forall>q \<in> set cluster2. \<forall>q' \<in> set cluster2.
           same_cluster (cluster_files compare t1 file_hashes) q q'"
proof -
  let ?ms1 = "new_members compare t1 p h file_hashes Mapping.empty"
  let ?ms2 = "new_members compare t2 p h file_hashes Mapping.empty"
  have p_rest: "p \<notin> fst ` set rest" using assms(2,3) by auto
  have not_later: "(p, cl) \<notin> set (fst (outer_loop compare t file_hashes rest c))" for t c cl
    using outer_loop_reps [of compare t file_hashes rest c] p_rest by force
  have sub: "set ?ms2 \<subseteq> set ?ms1"
    using new_members_mono [OF assms(1), of Mapping.empty Mapping.empty "{}" compare p h file_hashes]
    by simp
  have cf: "cluster_files compare t file_hashes =
     (if new_members compare t p h file_hashes Mapping.empty = []
      then fst (outer_loop compare t file_hashes rest Mapping.empty)
      else (p, p # new_members compare t p h file_hashes Mapping.empty) #
           fst (outer_loop compare t file_hashes rest
                  (mark Mapping.empty (new_members compare t p h file_hashes Mapping.empty))))" for t
    unfolding assms(2) by (rule cluster_files_Cons)
  have ms2: "?ms2 \<noteq> []"
  proof
    assume "?ms2 = []"
    with assms(4) cf [of t2] not_later show False by simp
  qed
  have c2: "cluster2 = p # ?ms2"
    using assms(4) cf [of t2] not_later ms2 by auto
  have "?ms1 \<noteq> []" using sub ms2 by auto
  then have "(p, p # ?ms1) \<in> set (cluster_files compare t1 file_hashes)"
    using cf [of t1] by simp
  moreover have "set cluster2 \<subseteq> set (p # ?ms1)" using sub c2 by auto
  ultimately show ?thesis
    unfolding same_cluster_def list_ex_iff by blast
qed

theorem first_cluster_monotone_witness:
  "(40::int) \<le> 100 \<and> example_hashes = (''a.txt'', (''3:abc'', ''01'')) # tl example_hashes
   \<and> distinct (map fst example_hashes)
   \<and> (''a.txt'', [''a.txt'', ''b.txt'']) \<in> set (cluster_files example_compare 100 example_hashes)
   \<and> same_cluster (cluster_files example_compare 40 example_hashes) ''a.txt'' ''b.txt''"
proof -
  have a: "(40::int) \<le> 100" by simp
  have b: "example_hashes = (''a.txt'', (''3:abc'', ''01'')) # tl example_hashes"
    by (simp add: example_hashes_def)
  have c: "distinct (map fst example_hashes)" by (simp add: example_hashes_def)
  have d: "(''a.txt'', [''a.txt'', ''b.txt'']) \<in> set (cluster_files example_compare 100 example_hashes)"
    by (simp add: example_simps)
  from first_cluster_monotone [OF a b c d]
  have "same_cluster (cluster_files example_compare 40 example_hashes) ''a.txt'' ''b.txt''"
    by simp
  with a b c d show ?thesis by blast
qed

subsection \<open>Comparison failures\<close>






subsection \<open>A discarded representative\<close>

lemma outer_loop_append:
  "outer_loop compare threshold tbl (xs @ ys) clusters =
     (fst (outer_loop compare threshold tbl xs clusters) @
        fst (outer_loop compare threshold tbl ys (snd (outer_loop compare threshold tbl xs clusters))),
      snd (outer_loop compare threshold tbl ys (snd (outer_loop compare threshold tbl xs clusters))))"
proof (induction xs arbitrary: clusters)
  case Nil
  show ?case by simp
next
  case (Cons item xs)
  obtain p1 h1 x1 where item: "item = (p1, (h1, x1))" by (cases item) auto
  show ?case unfolding item append_Cons outer_loop_step by (simp add: Cons.IH)
qed

text \<open>
  Claim C5. Let the outer loop reach \<open>filepath1\<close> with registry \<open>clusters0\<close>, and let
  its candidate cluster gain no member, so that it is discarded. Then the registry after
  the inner loop is \<open>clusters0\<close> again: the representative is not marked. If a later
  entry \<open>filepath3\<close> is reached as a representative while \<open>filepath1\<close> is still outside
  the registry, and the comparison of its digest against that of \<open>filepath1\<close> meets the
  threshold, then the cluster yielded for \<open>filepath3\<close> has \<open>filepath1\<close> among its
  members.
\<close>

theorem discarded_representative_stays_eligible:
  assumes "file_hashes = pre @ (filepath1, (ssdeep_hash1, xxhash1)) # mid
                           @ (filepath3, (ssdeep_hash3, xxhash3)) # post"
    and "distinct (map fst file_hashes)"
    and "outer_loop compare threshold file_hashes pre Mapping.empty = (yielded0, clusters0)"
    and "filepath1 \<notin> Mapping.keys clusters0"
    and "inner_loop compare threshold filepath1 ssdeep_hash1 file_hashes clusters0 [filepath1]
           = (cluster1, clusters1)"
    and "\<not> length cluster1 > 1"
    and "outer_loop compare threshold file_hashes mid clusters1 = (yielded2, clusters2)"
    and "filepath1 \<notin> Mapping.keys clusters2"
    and "filepath3 \<notin> Mapping.keys clusters2"
    and "compare ssdeep_hash3 ssdeep_hash1 = Inr similarity"
    and "similarity \<ge> threshold"
  shows "clusters1 = clusters0 \<and> filepath1 \<notin> Mapping.keys clusters1
     \<and> (filepath3,
          fst (inner_loop compare threshold filepath3 ssdeep_hash3 file_hashes clusters2 [filepath3]))
          \<in> set (cluster_files compare threshold file_hashes)
     \<and> filepath1 \<in> set (tl (fst (inner_loop compare threshold filepath3 ssdeep_hash3 file_hashes
                                    clusters2 [filepath3])))"
proof -
  let ?ms1 = "new_members compare threshold filepath1 ssdeep_hash1 file_hashes clusters0"
  let ?ms3 = "new_members compare threshold filepath3 ssdeep_hash3 file_hashes clusters2"
  have "cluster1 = [filepath1] @ ?ms1" and c1: "clusters1 = mark clusters0 ?ms1"
    using assms(5) by (simp_all add: inner_loop_eq)
  with assms(6) have ms1: "?ms1 = []" by simp
  with c1 have same: "clusters1 = clusters0" by simp
  have in_tbl: "(filepath1, (ssdeep_hash1, xxhash1)) \<in> set file_hashes"
    unfolding assms(1) by simp
  have neq: "filepath1 \<noteq> filepath3"
    using assms(2) unfolding assms(1) by auto
  have m: "meets compare threshold ssdeep_hash3 ssdeep_hash1"
    using assms(10,11) by (simp add: meets_def)
  have mem: "filepath1 \<in> set ?ms3"
    using new_members_complete [OF in_tbl neq assms(8), of compare threshold ssdeep_hash3] m
    by blast
  then have ms3: "?ms3 \<noteq> []" by auto
  have step1: "outer_loop compare threshold file_hashes
                 ((filepath1, (ssdeep_hash1, xxhash1)) # mid) clusters0 = (yielded2, clusters2)"
    unfolding outer_loop_step using assms(4) ms1 assms(7) same by simp
  have split: "file_hashes = pre @ ((filepath1, (ssdeep_hash1, xxhash1)) # mid)
                 @ ((filepath3, (ssdeep_hash3, xxhash3)) # post)"
    unfolding assms(1) by simp
  have "fst (outer_loop compare threshold file_hashes
          (pre @ ((filepath1, (ssdeep_hash1, xxhash1)) # mid)
             @ ((filepath3, (ssdeep_hash3, xxhash3)) # post)) Mapping.empty)
        = yielded0 @ yielded2 @
            fst (outer_loop compare threshold file_hashes
                   ((filepath3, (ssdeep_hash3, xxhash3)) # post) clusters2)"
    unfolding outer_loop_append using assms(3) step1 by simp
  moreover have "fst (outer_loop compare threshold file_hashes
                   ((filepath3, (ssdeep_hash3, xxhash3)) # post) clusters2)
       = (filepath3, filepath3 # ?ms3) #
           fst (outer_loop compare threshold file_hashes post (mark clusters2 ?ms3))"
    unfolding outer_loop_step using assms(9) ms3 by simp
  ultimately have "(filepath3, filepath3 # ?ms3) \<in> set (fst (outer_loop compare threshold file_hashes
          (pre @ ((filepath1, (ssdeep_hash1, xxhash1)) # mid)
             @ ((filepath3, (ssdeep_hash3, xxhash3)) # post)) Mapping.empty))"
    by simp
  then have "(filepath3, filepath3 # ?ms3) \<in> set (cluster_files compare threshold file_hashes)"
    unfolding cluster_files_def using split by simp
  with same assms(4) mem show ?thesis by (simp add: inner_loop_eq)
qed

theorem discarded_representative_stays_eligible_witness:
  "example_pair = [] @ (''A'', (''3:a'', ''0a'')) # [] @ (''B'', (''3:b'', ''0b'')) # []
   \<and> distinct (map fst example_pair)
   \<and> outer_loop example_one_way 70 example_pair [] Mapping.empty = ([], Mapping.empty)
   \<and> ''A'' \<notin> Mapping.keys (Mapping.empty :: registry)
   \<and> inner_loop example_one_way 70 ''A'' ''3:a'' example_pair Mapping.empty [''A'']
        = ([''A''], Mapping.empty)
   \<and> \<not> length [''A''] > 1
   \<and> ''B'' \<notin> Mapping.keys (Mapping.empty :: registry)
   \<and> example_one_way ''3:b'' ''3:a'' = Inr 90 \<and> (90::int) \<ge> 70
   \<and> (''B'', fst (inner_loop example_one_way 70 ''B'' ''3:b'' example_pair Mapping.empty [''B'']))
        \<in> set (cluster_files example_one_way 70 example_pair)
   \<and> ''A'' \<in> set (tl (fst (inner_loop example_one_way 70 ''B'' ''3:b'' example_pair
                               Mapping.empty [''B''])))
   \<and> cluster_files example_one_way 70 example_pair = [(''B'', [''B'', ''A''])]"
proof -
  have h1: "example_pair = [] @ (''A'', (''3:a'', ''0a'')) # [] @ (''B'', (''3:b'', ''0b'')) # []"
    by (simp add: example_pair_def)
  have h2: "distinct (map fst example_pair)" by (simp add: example_pair_def)
  have h3: "outer_loop example_one_way 70 example_pair [] Mapping.empty = ([], Mapping.empty)"
    by simp
  have h4: "''A'' \<notin> Mapping.keys (Mapping.empty :: registry)" by simp
  have h5: "inner_loop example_one_way 70 ''A'' ''3:a'' example_pair Mapping.empty [''A'']
        = ([''A''], Mapping.empty)"
    by (simp add: example_pair_def example_one_way_def)
  have h6: "\<not> length [''A''] > 1" by simp
  have h9: "''B'' \<notin> Mapping.keys (Mapping.empty :: registry)" by simp
  have h10: "example_one_way ''3:b'' ''3:a'' = Inr 90" by (simp add: example_one_way_def)
  have h11: "(90::int) \<ge> 70" by simp
  have e: "cluster_files example_one_way 70 example_pair = [(''B'', [''B'', ''A''])]"
    by (simp add: cluster_files_def example_pair_def example_one_way_def)
  note r = discarded_representative_stays_eligible
    [of example_pair "[]" "''A''" "''3:a''" "''0a''" "[]" "''B''" "''3:b''" "''0b''" "[]"
        example_one_way 70 "[]" Mapping.empty "[''A'']" Mapping.empty "[]" Mapping.empty 90,
     OF h1 h2 h3 h4 h5 h6 h3 h4 h9 h10 h11]
  have r3: "(''B'', fst (inner_loop example_one_way 70 ''B'' ''3:b'' example_pair Mapping.empty [''B'']))
        \<in> set (cluster_files example_one_way 70 example_pair)"
    using r by (elim conjE)
  have r4: "''A'' \<in> set (tl (fst (inner_loop example_one_way 70 ''B'' ''3:b'' example_pair
                               Mapping.empty [''B''])))"
    using r by (elim conjE)
  show ?thesis by (intro conjI h1 h2 h3 h4 h5 h6 h9 h10 h11 r3 r4 e)
qed

subsection \<open>Determinism\<close>

text \<open>
  The relational pass agrees with the functional one: under a comparison whose outcomes
  are those of a function, every run gives the result of the loops above, and that
  result is a run.
\<close>

lemma inner_run_sound:
  assumes "\<And>a b r. compare_rel a b r \<Longrightarrow> r = compare a b"
  shows "inner_run compare_rel threshold p1 h1 items clusters cluster r \<Longrightarrow>
         r = inner_loop compare threshold p1 h1 items clusters cluster"
proof (induction rule: inner_run.induct)
  case (inner_done clusters cluster)
  show ?case by simp
next
  case (inner_guard filepath2 clusters items cluster r ssdeep_hash2 xxhash2)
  then show ?case by auto
next
  case (inner_similar filepath2 clusters ssdeep_hash2 similarity items cluster r xxhash2)
  from assms [OF inner_similar.hyps(3)] have "compare h1 ssdeep_hash2 = Inr similarity" by simp
  with inner_similar show ?case by simp
next
  case (inner_below filepath2 clusters ssdeep_hash2 similarity items cluster r xxhash2)
  from assms [OF inner_below.hyps(3)] have "compare h1 ssdeep_hash2 = Inr similarity" by simp
  with inner_below show ?case by simp
next
  case (inner_raised filepath2 clusters ssdeep_hash2 e items cluster r xxhash2)
  from assms [OF inner_raised.hyps(3)] have "compare h1 ssdeep_hash2 = Inl e" by simp
  with inner_raised show ?case by simp
qed

lemma outer_run_sound:
  assumes "\<And>a b r. compare_rel a b r \<Longrightarrow> r = compare a b"
  shows "outer_run compare_rel threshold tbl items clusters r \<Longrightarrow>
         r = outer_loop compare threshold tbl items clusters"
proof (induction rule: outer_run.induct)
  case (outer_done clusters)
  show ?case by simp
next
  case (outer_claimed filepath1 clusters items r ssdeep_hash1 xxhash1)
  then show ?case by simp
next
  case (outer_yield filepath1 clusters ssdeep_hash1 cluster clusters' items yielded clusters'' xxhash1)
  from inner_run_sound [OF assms outer_yield.hyps(2)]
  have "inner_loop compare threshold filepath1 ssdeep_hash1 tbl clusters [filepath1]
          = (cluster, clusters')" by simp
  with outer_yield.hyps(1,3) outer_yield.IH [symmetric] show ?case by simp
next
  case (outer_discard filepath1 clusters ssdeep_hash1 cluster clusters' items r xxhash1)
  from inner_run_sound [OF assms outer_discard.hyps(2)]
  have "inner_loop compare threshold filepath1 ssdeep_hash1 tbl clusters [filepath1]
          = (cluster, clusters')" by simp
  with outer_discard.hyps(1,3) outer_discard.IH show ?case by simp
qed

lemma inner_run_outcome_of:
  "inner_run (outcome_of compare) threshold p1 h1 items clusters cluster
     (inner_loop compare threshold p1 h1 items clusters cluster)"
proof (induction items arbitrary: clusters cluster)
  case Nil
  show ?case by (simp add: inner_done)
next
  case (Cons item items)
  obtain p2 h2 x2 where item: "item = (p2, (h2, x2))" by (cases item) auto
  show ?case
  proof (cases "p1 \<noteq> p2 \<and> p2 \<notin> Mapping.keys clusters")
    case False
    then have g: "p1 = p2 \<or> p2 \<in> Mapping.keys clusters" by blast
    have "inner_run (outcome_of compare) threshold p1 h1 ((p2, (h2, x2)) # items) clusters cluster
            (inner_loop compare threshold p1 h1 items clusters cluster)"
      using g Cons.IH by (rule inner_guard)
    with False show ?thesis unfolding item by auto
  next
    case True
    then have n: "p1 \<noteq> p2" and k: "p2 \<notin> Mapping.keys clusters" by blast+
    show ?thesis
    proof (cases "compare h1 h2")
      case (Inl e)
      then have o: "outcome_of compare h1 h2 (Inl e)" by (simp add: outcome_of_def)
      have "inner_run (outcome_of compare) threshold p1 h1 ((p2, (h2, x2)) # items) clusters cluster
              (inner_loop compare threshold p1 h1 items clusters cluster)"
        using n k o Cons.IH by (rule inner_raised)
      with True Inl show ?thesis unfolding item by simp
    next
      case (Inr similarity)
      then have o: "outcome_of compare h1 h2 (Inr similarity)" by (simp add: outcome_of_def)
      show ?thesis
      proof (cases "similarity \<ge> threshold")
        case ge: True
        have "inner_run (outcome_of compare) threshold p1 h1 ((p2, (h2, x2)) # items) clusters cluster
              (inner_loop compare threshold p1 h1 items (Mapping.update p2 True clusters)
                 (cluster @ [p2]))"
          using n k o ge Cons.IH by (rule inner_similar)
        with True Inr ge show ?thesis unfolding item by simp
      next
        case lt: False
        have "inner_run (outcome_of compare) threshold p1 h1 ((p2, (h2, x2)) # items) clusters cluster
              (inner_loop compare threshold p1 h1 items clusters cluster)"
          using n k o lt Cons.IH by (rule inner_below)
        with True Inr lt show ?thesis unfolding item by simp
      qed
    qed
  qed
qed

lemma outer_run_outcome_of:
  "outer_run (outcome_of compare) threshold tbl items clusters
     (outer_loop compare threshold tbl items clusters)"
proof (induction items arbitrary: clusters)
  case Nil
  show ?case by (simp add: outer_done)
next
  case (Cons item items)
  obtain p1 h1 x1 where item: "item = (p1, (h1, x1))" by (cases item) auto
  show ?case
  proof (cases "p1 \<in> Mapping.keys clusters")
    case True
    have "outer_run (outcome_of compare) threshold tbl ((p1, (h1, x1)) # items) clusters
            (outer_loop compare threshold tbl items clusters)"
      using True Cons.IH by (rule outer_claimed)
    with True show ?thesis unfolding item by simp
  next
    case False
    obtain cluster clusters' where il:
      "inner_loop compare threshold p1 h1 tbl clusters [p1] = (cluster, clusters')"
      by (cases "inner_loop compare threshold p1 h1 tbl clusters [p1]") auto
    have ir: "inner_run (outcome_of compare) threshold p1 h1 tbl clusters [p1] (cluster, clusters')"
      using inner_run_outcome_of [of compare threshold p1 h1 tbl clusters "[p1]"] il by simp
    obtain yielded clusters'' where ol:
      "outer_loop compare threshold tbl items clusters' = (yielded, clusters'')"
      by (cases "outer_loop compare threshold tbl items clusters'") auto
    have orun: "outer_run (outcome_of compare) threshold tbl items clusters' (yielded, clusters'')"
      using Cons.IH [of clusters'] ol by simp
    show ?thesis
    proof (cases "length cluster > 1")
      case True
      have "outer_run (outcome_of compare) threshold tbl ((p1, (h1, x1)) # items) clusters
              ((p1, cluster) # yielded, clusters'')"
        using False ir True orun by (rule outer_yield)
      with False il ol True show ?thesis unfolding item by simp
    next
      case nl: False
      have "outer_run (outcome_of compare) threshold tbl ((p1, (h1, x1)) # items) clusters
              (yielded, clusters'')"
        using False ir nl orun by (rule outer_discard)
      with False il ol nl show ?thesis unfolding item by simp
    qed
  qed
qed

lemma cluster_files_run_outcome_of:
  "cluster_files_run (outcome_of compare) threshold file_hashes yielded
     \<longleftrightarrow> yielded = cluster_files compare threshold file_hashes"
proof
  assume "cluster_files_run (outcome_of compare) threshold file_hashes yielded"
  then obtain clusters where
    "outer_run (outcome_of compare) threshold file_hashes file_hashes Mapping.empty (yielded, clusters)"
    unfolding cluster_files_run_def by blast
  from outer_run_sound [OF _ this, of compare]
  have "(yielded, clusters) = outer_loop compare threshold file_hashes file_hashes Mapping.empty"
    by (simp add: outcome_of_def)
  then show "yielded = cluster_files compare threshold file_hashes"
    unfolding cluster_files_def by (metis fst_conv)
next
  assume y: "yielded = cluster_files compare threshold file_hashes"
  have "outer_run (outcome_of compare) threshold file_hashes file_hashes Mapping.empty
          (outer_loop compare threshold file_hashes file_hashes Mapping.empty)"
    by (rule outer_run_outcome_of)
  then have "outer_run (outcome_of compare) threshold file_hashes file_hashes Mapping.empty
          (yielded, snd (outer_loop compare threshold file_hashes file_hashes Mapping.empty))"
    unfolding y cluster_files_def by simp
  then show "cluster_files_run (outcome_of compare) threshold file_hashes yielded"
    unfolding cluster_files_run_def by blast
qed

text \<open>
  Claim C7. If the comparison is deterministic, two runs of the clustering pass on the
  same table and threshold yield the same list: the same pairs in the same order, with
  the same lists of members.
\<close>

theorem clustering_deterministic:
  assumes "deterministic compare_rel"
    and "cluster_files_run compare_rel threshold file_hashes yielded"
    and "cluster_files_run compare_rel threshold file_hashes yielded'"
  shows "yielded' = yielded"
proof -
  define compare where "compare a b = (SOME r. compare_rel a b r)" for a b
  have c: "r = compare a b" if "compare_rel a b r" for a b r
  proof -
    from that have "compare_rel a b (compare a b)"
      unfolding compare_def by (rule someI)
    with assms(1) that show ?thesis unfolding deterministic_def by blast
  qed
  from assms(2) obtain clusters where
    "outer_run compare_rel threshold file_hashes file_hashes Mapping.empty (yielded, clusters)"
    unfolding cluster_files_run_def by blast
  from outer_run_sound [OF c this]
  have 1: "(yielded, clusters) = outer_loop compare threshold file_hashes file_hashes Mapping.empty" .
  from assms(3) obtain clusters' where
    "outer_run compare_rel threshold file_hashes file_hashes Mapping.empty (yielded', clusters')"
    unfolding cluster_files_run_def by blast
  from outer_run_sound [OF c this]
  have 2: "(yielded', clusters') = outer_loop compare threshold file_hashes file_hashes Mapping.empty" .
  from 1 2 show ?thesis by (metis prod.inject)
qed

theorem clustering_deterministic_witness:
  "deterministic (outcome_of example_compare)
   \<and> cluster_files_run (outcome_of example_compare) 70 example_hashes
        [(''a.txt'', [''a.txt'', ''b.txt''])]
   \<and> cluster_files_run (outcome_of example_compare) 70 example_hashes
        (cluster_files example_compare 70 example_hashes)
   \<and> cluster_files example_compare 70 example_hashes = [(''a.txt'', [''a.txt'', ''b.txt''])]"
proof -
  have d: "deterministic (outcome_of example_compare)"
    by (simp add: deterministic_def outcome_of_def)
  have e: "cluster_files example_compare 70 example_hashes = [(''a.txt'', [''a.txt'', ''b.txt''])]"
    by (simp add: example_simps)
  have r2: "cluster_files_run (outcome_of example_compare) 70 example_hashes
        (cluster_files example_compare 70 example_hashes)"
    by (simp add: cluster_files_run_outcome_of)
  have r1: "cluster_files_run (outcome_of example_compare) 70 example_hashes
        [(''a.txt'', [''a.txt'', ''b.txt''])]"
    using r2 unfolding e .
  note t = clustering_deterministic
    [of "outcome_of example_compare" 70 example_hashes "[(''a.txt'', [''a.txt'', ''b.txt''])]"
        "cluster_files example_compare 70 example_hashes", OF d r1 r2]
  show ?thesis by (intro conjI d r1 r2 t)
qed

subsection \<open>The scan\<close>

lemmas example_file_simps =
  file_a_def file_b_def file_gone_def file_secret_def file_tiny_def
  example_ssdeep_def example_xxh64_def example_compare_opt_def example_compare_def
  calculate_hashes_def find_similar_files_def cluster_files_def

lemma map_fst_dict_set:
  "map fst (dict_set d k v) = (if k \<in> set (map fst d) then map fst d else map fst d @ [k])"
  by (induction d) (auto simp: rev_image_eqI)

lemma keys_dict_set: "fst ` set (dict_set d k v) = insert k (fst ` set d)"
proof -
  have "set (map fst (dict_set d k v)) = insert k (set (map fst d))"
    unfolding map_fst_dict_set by auto
  then show ?thesis by simp
qed

lemma set_dict_set: "set (dict_set d k v) \<subseteq> insert (k, v) (set d)"
  by (induction d) (auto split: if_splits)

lemma distinct_dict_set: "distinct (map fst d) \<Longrightarrow> distinct (map fst (dict_set d k v))"
  unfolding map_fst_dict_set by simp

lemma hash_failure_None: "hash_failure e = (None, None)"
  by (cases e) simp_all

lemma hashing_failed_None:
  "hashing_failed ssdeep_hash xxh64_hexdigest f \<Longrightarrow>
     calculate_hashes ssdeep_hash xxh64_hexdigest f = (None, None)"
  unfolding hashing_failed_def calculate_hashes_def
  by (auto simp: hash_failure_None split: sum.splits)

lemma calculate_hashes_cases:
  "calculate_hashes ssdeep_hash xxh64_hexdigest f = (None, None)
     \<and> hashing_failed ssdeep_hash xxh64_hexdigest f
   \<or> (\<exists>h x. calculate_hashes ssdeep_hash xxh64_hexdigest f = (Some h, Some x)
         \<and> \<not> hashing_failed ssdeep_hash xxh64_hexdigest f)"
  unfolding hashing_failed_def calculate_hashes_def
  by (auto simp: hash_failure_None split: sum.splits)

lemma scan_files_step:
  "scan_files sh xh ms (f # files) tbl =
     (case getsize f of
        Inl e \<Rightarrow> Inl e
      | Inr size' \<Rightarrow>
          if too_small ms f \<or> hashing_failed sh xh f
             \<or> \<not> (truthy (fst (calculate_hashes sh xh f)) \<and> truthy (snd (calculate_hashes sh xh f)))
          then scan_files sh xh ms files tbl
          else scan_files sh xh ms files (dict_set tbl (filepath f) (calculate_hashes sh xh f)))"
  using calculate_hashes_cases [of sh xh f]
  by (auto simp: too_small_def split: sum.splits prod.splits)

lemma scan_files_total:
  "\<forall>f \<in> set files. \<exists>size'. getsize f = Inr size' \<Longrightarrow>
     \<exists>tbl'. scan_files sh xh ms files tbl = Inr tbl'"
proof (induction files arbitrary: tbl)
  case Nil
  show ?case by simp
next
  case (Cons f files)
  then obtain size' where sz: "getsize f = Inr size'" by auto
  from Cons have ih: "\<exists>tbl'. scan_files sh xh ms files t = Inr tbl'" for t by simp
  show ?case unfolding scan_files_step sz using ih by simp
qed

lemma scan_files_skip_failed:
  "\<forall>f \<in> set files. \<exists>size'. getsize f = Inr size' \<Longrightarrow>
     scan_files sh xh ms (filter (\<lambda>f. \<not> hashing_failed sh xh f) files) tbl
       = scan_files sh xh ms files tbl"
proof (induction files arbitrary: tbl)
  case Nil
  show ?case by simp
next
  case (Cons f files)
  then obtain size' where sz: "getsize f = Inr size'" by auto
  from Cons have ih: "scan_files sh xh ms (filter (\<lambda>f. \<not> hashing_failed sh xh f) files) t
       = scan_files sh xh ms files t" for t by simp
  show ?case
  proof (cases "hashing_failed sh xh f")
    case True
    then show ?thesis unfolding filter.simps scan_files_step [of sh xh ms f files] sz
      using ih by simp
  next
    case False
    then show ?thesis unfolding filter.simps
      by (simp only: if_True if_False not_False_eq_True scan_files_step sz ih)
  qed
qed

lemma scan_files_skip_small:
  "scan_files sh xh ms (filter (\<lambda>f. \<not> too_small ms f) files) tbl
     = scan_files sh xh ms files tbl"
proof (induction files arbitrary: tbl)
  case Nil
  show ?case by simp
next
  case (Cons f files)
  show ?case
  proof (cases "too_small ms f")
    case True
    then obtain size' where sz: "getsize f = Inr size'"
      by (auto simp: too_small_def split: sum.splits)
    from True show ?thesis unfolding filter.simps scan_files_step [of sh xh ms f files] sz
      using Cons.IH by simp
  next
    case False
    then show ?thesis unfolding filter.simps
      by (simp only: if_True if_False not_False_eq_True scan_files_step Cons.IH)
  qed
qed

lemma scan_files_entries:
  "scan_files sh xh ms files tbl = Inr tbl' \<Longrightarrow> (p, (a, b)) \<in> set tbl' \<Longrightarrow>
     (p, (a, b)) \<in> set tbl
     \<or> (\<exists>f \<in> set files. filepath f = p \<and> \<not> too_small ms f \<and> \<not> hashing_failed sh xh f
           \<and> calculate_hashes sh xh f = (a, b) \<and> truthy a \<and> truthy b)"
proof (induction files arbitrary: tbl)
  case Nil
  then show ?case by simp
next
  case (Cons f files)
  from Cons.prems(1) obtain size' where sz: "getsize f = Inr size'"
    by (cases "getsize f") auto
  let ?skip = "too_small ms f \<or> hashing_failed sh xh f
             \<or> \<not> (truthy (fst (calculate_hashes sh xh f)) \<and> truthy (snd (calculate_hashes sh xh f)))"
  show ?case
  proof (cases ?skip)
    case True
    with Cons.prems(1) have "scan_files sh xh ms files tbl = Inr tbl'"
      unfolding scan_files_step [of sh xh ms f files] sz by simp
    from Cons.IH [OF this Cons.prems(2)] show ?thesis by auto
  next
    case False
    with Cons.prems(1) have
      "scan_files sh xh ms files (dict_set tbl (filepath f) (calculate_hashes sh xh f)) = Inr tbl'"
      unfolding scan_files_step [of sh xh ms f files] sz by simp
    from Cons.IH [OF this Cons.prems(2)]
    consider "(p, (a, b)) \<in> set (dict_set tbl (filepath f) (calculate_hashes sh xh f))"
      | "\<exists>f \<in> set files. filepath f = p \<and> \<not> too_small ms f \<and> \<not> hashing_failed sh xh f
           \<and> calculate_hashes sh xh f = (a, b) \<and> truthy a \<and> truthy b" by blast
    then show ?thesis
    proof cases
      case 1
      with set_dict_set [of tbl "filepath f" "calculate_hashes sh xh f"]
      have "(p, (a, b)) = (filepath f, calculate_hashes sh xh f) \<or> (p, (a, b)) \<in> set tbl"
        by auto
      then show ?thesis
      proof
        assume "(p, (a, b)) = (filepath f, calculate_hashes sh xh f)"
        then have c: "calculate_hashes sh xh f = (a, b)" and pf: "filepath f = p" by simp_all
        from False c have "truthy a" "truthy b" "\<not> too_small ms f" "\<not> hashing_failed sh xh f"
          by simp_all
        with c pf show ?thesis by auto
      next
        assume "(p, (a, b)) \<in> set tbl"
        then show ?thesis by simp
      qed
    next
      case 2
      then show ?thesis by auto
    qed
  qed
qed


lemma truthy_not_None: "truthy a \<Longrightarrow> a \<noteq> None"
  by (cases a) simp_all

lemma cluster_files_paths:
  "set (concat (map snd (cluster_files compare threshold tbl))) \<subseteq> fst ` set tbl"
proof
  fix q
  assume "q \<in> set (concat (map snd (cluster_files compare threshold tbl)))"
  then obtain rep cl where rc: "(rep, cl) \<in> set (cluster_files compare threshold tbl)"
    and q: "q \<in> set cl" by auto
  from rc outer_loop_yielded [of rep cl compare threshold tbl tbl Mapping.empty]
  obtain h x reg where rt: "(rep, (h, x)) \<in> set tbl"
    and cl: "cl = rep # new_members compare threshold rep h tbl reg"
    unfolding cluster_files_def by blast
  have "set (new_members compare threshold rep h tbl reg) \<subseteq> set (map fst tbl)"
    using new_members_subseq [of compare threshold rep h tbl reg]
    by (auto elim: list_emb_set)
  with q cl rt show "q \<in> fst ` set tbl" by force
qed

lemma example_scan:
  "scan_files example_ssdeep example_xxh64 1024 (walk example_dir) []
     = Inr [(''d/a.txt'', (Some ''3:abc'', Some ''ef46db3751d8e999'')),
            (''d/b.txt'', (Some ''3:abc'', Some ''ef46db3751d8e999''))]"
  by (simp add: example_dir_def example_file_simps)

lemma example_find:
  "find_similar_files example_ssdeep example_xxh64 example_compare_opt example_dir 70 1024
     = [(''d/a.txt'', [''d/a.txt'', ''d/b.txt''])]"
  by (simp add: example_dir_def example_file_simps)

text \<open>
  Claim C8. Every entry of the table that the scan builds has a fuzzy digest and a strong
  digest other than \<open>None\<close>, and it comes from a walked file of that path whose hashing
  did not fail: a file for which \<open>calculate_hashes\<close> returns \<open>(None, None)\<close> is not
  inserted.
\<close>

theorem table_digests_not_None:
  assumes "scan_files ssdeep_hash xxh64_hexdigest min_size files [] = Inr file_hashes"
    and "(p, (fuzzy, strong)) \<in> set file_hashes"
  shows "fuzzy \<noteq> None \<and> strong \<noteq> None
     \<and> (\<exists>f \<in> set files. filepath f = p \<and> \<not> hashing_failed ssdeep_hash xxh64_hexdigest f
           \<and> calculate_hashes ssdeep_hash xxh64_hexdigest f = (fuzzy, strong))"
proof -
  from scan_files_entries [OF assms]
  obtain f where f: "f \<in> set files" "filepath f = p"
      "\<not> hashing_failed ssdeep_hash xxh64_hexdigest f"
      "calculate_hashes ssdeep_hash xxh64_hexdigest f = (fuzzy, strong)"
    and t: "truthy fuzzy" "truthy strong"
    by auto
  from t have "fuzzy \<noteq> None" "strong \<noteq> None" by (auto simp: truthy_not_None)
  with f show ?thesis by blast
qed

theorem table_digests_not_None_witness:
  "scan_files example_ssdeep example_xxh64 1024 (walk example_dir) []
     = Inr [(''d/a.txt'', (Some ''3:abc'', Some ''ef46db3751d8e999'')),
            (''d/b.txt'', (Some ''3:abc'', Some ''ef46db3751d8e999''))]
   \<and> (''d/a.txt'', (Some ''3:abc'', Some ''ef46db3751d8e999''))
        \<in> set [(''d/a.txt'', (Some ''3:abc'', Some ''ef46db3751d8e999'')),
                (''d/b.txt'', (Some ''3:abc'', Some ''ef46db3751d8e999''))]
   \<and> Some ''3:abc'' \<noteq> None \<and> Some ''ef46db3751d8e999'' \<noteq> None"
proof -
  have m: "(''d/a.txt'', (Some ''3:abc'', Some ''ef46db3751d8e999''))
        \<in> set [(''d/a.txt'', (Some ''3:abc'', Some ''ef46db3751d8e999'')),
                (''d/b.txt'', (Some ''3:abc'', Some ''ef46db3751d8e999''))]" by simp
  note t = table_digests_not_None
    [of example_ssdeep example_xxh64 1024 "walk example_dir"
        "[(''d/a.txt'', (Some ''3:abc'', Some ''ef46db3751d8e999'')),
          (''d/b.txt'', (Some ''3:abc'', Some ''ef46db3751d8e999''))]"
        "''d/a.txt''" "Some ''3:abc''" "Some ''ef46db3751d8e999''", OF example_scan m]
  have t1: "Some ''3:abc'' \<noteq> None" using t by (elim conjE)
  have t2: "Some ''ef46db3751d8e999'' \<noteq> None" using t by (elim conjE)
  show ?thesis by (intro conjI example_scan m t1 t2)
qed

text \<open>
  Claim C3, as stated, fails for the size check. \<open>os.path.getsize\<close> is called in the
  traversal loop outside \<open>calculate_hashes\<close>; when it raises, the handlers around the
  loop end the generator, and the two similar files that follow the vanished one are
  never reported.
\<close>

theorem size_check_failure_counterexample:
  "getsize file_gone = Inl FileNotFoundError
   \<and> scan_files example_ssdeep example_xxh64 1024 [file_gone, file_a, file_b] []
       = Inl FileNotFoundError
   \<and> find_similar_files example_ssdeep example_xxh64 example_compare_opt
        \<lparr>isdir = True, walk = [file_gone, file_a, file_b]\<rparr> 70 1024 = []
   \<and> find_similar_files example_ssdeep example_xxh64 example_compare_opt
        \<lparr>isdir = True, walk = [file_a, file_b]\<rparr> 70 1024
       = [(''d/a.txt'', [''d/a.txt'', ''d/b.txt''])]"
  by (simp add: example_file_simps)

text \<open>
  Claim C3, amended. When all size checks return, the scan returns a table; a file whose
  reading or hashing fails is not a key of it, and the table and the yielded clusters
  are those of the scan without the failing files.
\<close>

theorem hashing_failures_are_skipped:
  assumes "size_checks_succeed (walk dir)"
    and "distinct (map filepath (walk dir))"
  shows "(\<exists>file_hashes.
            scan_files ssdeep_hash xxh64_hexdigest min_size (walk dir) [] = Inr file_hashes
            \<and> (\<forall>f \<in> set (walk dir). hashing_failed ssdeep_hash xxh64_hexdigest f \<longrightarrow>
                  filepath f \<notin> fst ` set file_hashes))
     \<and> scan_files ssdeep_hash xxh64_hexdigest min_size (walk dir) []
         = scan_files ssdeep_hash xxh64_hexdigest min_size
             (filter (\<lambda>f. \<not> hashing_failed ssdeep_hash xxh64_hexdigest f) (walk dir)) []
     \<and> find_similar_files ssdeep_hash xxh64_hexdigest compare dir threshold min_size
         = find_similar_files ssdeep_hash xxh64_hexdigest compare
             (dir\<lparr>walk := filter (\<lambda>f. \<not> hashing_failed ssdeep_hash xxh64_hexdigest f) (walk dir)\<rparr>)
             threshold min_size"
proof -
  let ?ok = "\<lambda>f. \<not> hashing_failed ssdeep_hash xxh64_hexdigest f"
  have sizes: "\<forall>f \<in> set (walk dir). \<exists>size'. getsize f = Inr size'"
  proof
    fix f
    assume "f \<in> set (walk dir)"
    with assms(1) have "case getsize f of Inl e \<Rightarrow> False | Inr size' \<Rightarrow> True"
      unfolding size_checks_succeed_def list_all_iff by blast
    then show "\<exists>size'. getsize f = Inr size'" by (cases "getsize f") simp_all
  qed
  have eq: "scan_files ssdeep_hash xxh64_hexdigest min_size (walk dir) []
         = scan_files ssdeep_hash xxh64_hexdigest min_size (filter ?ok (walk dir)) []"
    using scan_files_skip_failed [OF sizes, of ssdeep_hash xxh64_hexdigest min_size "[]"]
    by simp
  from scan_files_total [OF sizes, of ssdeep_hash xxh64_hexdigest min_size "[]"]
  obtain file_hashes where
    fh: "scan_files ssdeep_hash xxh64_hexdigest min_size (walk dir) [] = Inr file_hashes"
    by blast
  have "filepath f \<notin> fst ` set file_hashes"
    if f: "f \<in> set (walk dir)" and bad: "hashing_failed ssdeep_hash xxh64_hexdigest f" for f
  proof
    assume "filepath f \<in> fst ` set file_hashes"
    then obtain a b where "(filepath f, (a, b)) \<in> set file_hashes" by force
    from scan_files_entries [OF fh this]
    obtain g where g: "g \<in> set (walk dir)" "filepath g = filepath f"
      "\<not> hashing_failed ssdeep_hash xxh64_hexdigest g" by auto
    from assms(2) have "inj_on filepath (set (walk dir))" by (simp add: distinct_map)
    with f g(1,2) have "g = f" by (auto dest: inj_onD)
    with g(3) bad show False by simp
  qed
  with fh have 1: "\<exists>file_hashes.
            scan_files ssdeep_hash xxh64_hexdigest min_size (walk dir) [] = Inr file_hashes
            \<and> (\<forall>f \<in> set (walk dir). hashing_failed ssdeep_hash xxh64_hexdigest f \<longrightarrow>
                  filepath f \<notin> fst ` set file_hashes)" by blast
  have 3: "find_similar_files ssdeep_hash xxh64_hexdigest compare dir threshold min_size
         = find_similar_files ssdeep_hash xxh64_hexdigest compare
             (dir\<lparr>walk := filter ?ok (walk dir)\<rparr>) threshold min_size"
    unfolding find_similar_files_def using eq by simp
  from 1 eq 3 show ?thesis by (intro conjI)
qed

theorem hashing_failures_are_skipped_witness:
  "size_checks_succeed (walk example_dir)
   \<and> distinct (map filepath (walk example_dir))
   \<and> hashing_failed example_ssdeep example_xxh64 file_secret
   \<and> scan_files example_ssdeep example_xxh64 1024 (walk example_dir) []
       = scan_files example_ssdeep example_xxh64 1024
           (filter (\<lambda>f. \<not> hashing_failed example_ssdeep example_xxh64 f) (walk example_dir)) []
   \<and> find_similar_files example_ssdeep example_xxh64 example_compare_opt example_dir 70 1024
       = find_similar_files example_ssdeep example_xxh64 example_compare_opt
           (example_dir\<lparr>walk := filter (\<lambda>f. \<not> hashing_failed example_ssdeep example_xxh64 f)
                                   (walk example_dir)\<rparr>) 70 1024
   \<and> find_similar_files example_ssdeep example_xxh64 example_compare_opt example_dir 70 1024
       = [(''d/a.txt'', [''d/a.txt'', ''d/b.txt''])]"
proof -
  have a: "size_checks_succeed (walk example_dir)"
    by (simp add: size_checks_succeed_def example_dir_def example_file_simps)
  have b: "distinct (map filepath (walk example_dir))"
    by (simp add: example_dir_def example_file_simps)
  have c: "hashing_failed example_ssdeep example_xxh64 file_secret"
    by (simp add: hashing_failed_def example_file_simps)
  note t = hashing_failures_are_skipped
    [of example_dir example_ssdeep example_xxh64 1024 example_compare_opt 70, OF a b]
  have t2: "scan_files example_ssdeep example_xxh64 1024 (walk example_dir) []
       = scan_files example_ssdeep example_xxh64 1024
           (filter (\<lambda>f. \<not> hashing_failed example_ssdeep example_xxh64 f) (walk example_dir)) []"
    using t by (elim conjE)
  have t3: "find_similar_files example_ssdeep example_xxh64 example_compare_opt example_dir 70 1024
       = find_similar_files example_ssdeep example_xxh64 example_compare_opt
           (example_dir\<lparr>walk := filter (\<lambda>f. \<not> hashing_failed example_ssdeep example_xxh64 f)
                                   (walk example_dir)\<rparr>) 70 1024"
    using t by (elim conjE)
  show ?thesis by (intro conjI a b c t2 t3 example_find)
qed

text \<open>
  Claim C9. A walked file whose size is below \<open>min_size\<close> is skipped: the scan is the
  scan without the small files (so nothing of such a file is hashed), its path is not a
  key of the table, and it is neither a representative nor in the list of any yielded
  pair.
\<close>

theorem small_files_excluded:
  assumes "f \<in> set (walk dir)" and "too_small min_size f"
    and "distinct (map filepath (walk dir))"
  shows "scan_files ssdeep_hash xxh64_hexdigest min_size (walk dir) []
           = scan_files ssdeep_hash xxh64_hexdigest min_size
               (filter (\<lambda>f. \<not> too_small min_size f) (walk dir)) []
     \<and> (\<forall>file_hashes.
           scan_files ssdeep_hash xxh64_hexdigest min_size (walk dir) [] = Inr file_hashes
           \<longrightarrow> filepath f \<notin> fst ` set file_hashes)
     \<and> filepath f \<notin> fst ` set
          (find_similar_files ssdeep_hash xxh64_hexdigest compare dir threshold min_size)
     \<and> filepath f \<notin> set (concat (map snd
          (find_similar_files ssdeep_hash xxh64_hexdigest compare dir threshold min_size)))"
proof -
  have 1: "scan_files ssdeep_hash xxh64_hexdigest min_size (walk dir) []
           = scan_files ssdeep_hash xxh64_hexdigest min_size
               (filter (\<lambda>f. \<not> too_small min_size f) (walk dir)) []"
    by (rule scan_files_skip_small [symmetric])
  have notin: "filepath f \<notin> fst ` set file_hashes"
    if fh: "scan_files ssdeep_hash xxh64_hexdigest min_size (walk dir) [] = Inr file_hashes"
    for file_hashes
  proof
    assume "filepath f \<in> fst ` set file_hashes"
    then obtain a b where "(filepath f, (a, b)) \<in> set file_hashes" by force
    from scan_files_entries [OF fh this]
    obtain g where g: "g \<in> set (walk dir)" "filepath g = filepath f" "\<not> too_small min_size g"
      by auto
    from assms(3) have "inj_on filepath (set (walk dir))" by (simp add: distinct_map)
    with assms(1) g(1,2) have "g = f" by (auto dest: inj_onD)
    with g(3) assms(2) show False by simp
  qed
  let ?out = "find_similar_files ssdeep_hash xxh64_hexdigest compare dir threshold min_size"
  have 34: "filepath f \<notin> fst ` set ?out \<and> filepath f \<notin> set (concat (map snd ?out))"
  proof (cases "scan_files ssdeep_hash xxh64_hexdigest min_size (walk dir) []")
    case (Inl e)
    then have "?out = []" unfolding find_similar_files_def by simp
    then show ?thesis by simp
  next
    case (Inr file_hashes)
    show ?thesis
    proof (cases "isdir dir")
      case False
      then have "?out = []" unfolding find_similar_files_def by simp
      then show ?thesis by simp
    next
      case True
      with Inr have out: "?out = cluster_files compare threshold file_hashes"
        unfolding find_similar_files_def by simp
      have "fst ` set (cluster_files compare threshold file_hashes) \<subseteq> fst ` set file_hashes"
        unfolding cluster_files_def by (rule outer_loop_reps)
      moreover have "set (concat (map snd (cluster_files compare threshold file_hashes)))
                       \<subseteq> fst ` set file_hashes"
        by (rule cluster_files_paths)
      ultimately show ?thesis unfolding out using notin [OF Inr] by blast
    qed
  qed
  then have 3: "filepath f \<notin> fst ` set ?out"
    and 4: "filepath f \<notin> set (concat (map snd ?out))" by blast+
  from 1 notin 3 4 show ?thesis by blast
qed

theorem small_files_excluded_witness:
  "file_tiny \<in> set (walk example_dir) \<and> too_small 1024 file_tiny
   \<and> distinct (map filepath (walk example_dir))
   \<and> scan_files example_ssdeep example_xxh64 1024 (walk example_dir) []
       = scan_files example_ssdeep example_xxh64 1024
           (filter (\<lambda>f. \<not> too_small 1024 f) (walk example_dir)) []
   \<and> filepath file_tiny \<notin> fst ` set
        (find_similar_files example_ssdeep example_xxh64 example_compare_opt example_dir 70 1024)
   \<and> filepath file_tiny \<notin> set (concat (map snd
        (find_similar_files example_ssdeep example_xxh64 example_compare_opt example_dir 70 1024)))"
proof -
  have a: "file_tiny \<in> set (walk example_dir)" by (simp add: example_dir_def)
  have b: "too_small 1024 file_tiny" by (simp add: too_small_def file_tiny_def)
  have c: "distinct (map filepath (walk example_dir))"
    by (simp add: example_dir_def example_file_simps)
  note t = small_files_excluded
    [of file_tiny example_dir 1024 example_ssdeep example_xxh64 example_compare_opt 70, OF a b c]
  have t1: "scan_files example_ssdeep example_xxh64 1024 (walk example_dir) []
       = scan_files example_ssdeep example_xxh64 1024
           (filter (\<lambda>f. \<not> too_small 1024 f) (walk example_dir)) []"
    using t by (elim conjE)
  have t3: "filepath file_tiny \<notin> fst ` set
        (find_similar_files example_ssdeep example_xxh64 example_compare_opt example_dir 70 1024)"
    using t by (elim conjE)
  have t4: "filepath file_tiny \<notin> set (concat (map snd
        (find_similar_files example_ssdeep example_xxh64 example_compare_opt example_dir 70 1024)))"
    using t by (elim conjE)
  show ?thesis by (intro conjI a b c t1 t3 t4)
qed

end
